theory Spec2Isabelle
  imports Complex_Main
begin

section \<open>GearMath: numbers\<close>

text \<open>
  The functions of \<open>gear_math.js\<close> compute on JavaScript numbers, the IEEE 754
  binary64 values. A number is modelled as a real, extended with the special values of
  the language: the negative zero, the two infinities and NaN. \<open>Fin 0\<close> is the
  positive zero; the finite doubles are the reals \<open>m * 2 ^ e\<close> with \<open>\<bar>m\<bar> < 2 ^ 53\<close>
  and \<open>- 1074 \<le> e \<le> 971\<close>.

  The arithmetic operators are given twice. The operators \<open>js_add\<close>, \<open>js_sub\<close>,
  \<open>js_mul\<close> and \<open>js_div\<close> follow ECMAScript on the special values and on the sign
  of a zero result and are exact on finite values, with \<open>Math.PI\<close> the real number
  \<open>pi\<close>: they say which real expression a function denotes. The operators
  \<open>js_add64\<close>, \<open>js_sub64\<close>, \<open>js_mul64\<close> and \<open>js_div64\<close> below round every
  finite result to the nearest double, ties to even, overflow to an infinity, with
  \<open>Math.PI\<close> the double \<open>884279719003555 / 2 ^ 48\<close>: they say which number the
  program returns. The operators \<open>%\<close>, \<open><\<close> and the unary minus are exact on doubles
  and shared by both.
\<close>

datatype jsnum = Fin real | NegZero | PosInf | NegInf | NaN

fun is_inf :: "jsnum \<Rightarrow> bool" where
  "is_inf PosInf = True"
| "is_inf NegInf = True"
| "is_inf _ = False"

fun is_zero :: "jsnum \<Rightarrow> bool" where
  "is_zero (Fin r) = (r = 0)"
| "is_zero NegZero = True"
| "is_zero _ = False"

text \<open>The sign bit of a number other than NaN.\<close>

fun sign_neg :: "jsnum \<Rightarrow> bool" where
  "sign_neg (Fin r) = (r < 0)"
| "sign_neg NegZero = True"
| "sign_neg NegInf = True"
| "sign_neg _ = False"

text \<open>The real value of a finite number (both zeros have the value 0).\<close>

fun val :: "jsnum \<Rightarrow> real" where
  "val (Fin r) = r"
| "val _ = 0"

fun js_val :: "jsnum \<Rightarrow> real option" where
  "js_val (Fin r) = Some r"
| "js_val NegZero = Some 0"
| "js_val _ = None"

definition mk_inf :: "bool \<Rightarrow> jsnum" where
  "mk_inf s = (if s then NegInf else PosInf)"

text \<open>The finite number of sign \<open>s\<close> and magnitude \<open>m\<close>, for \<open>0 \<le> m\<close>.\<close>

definition mk_fin :: "bool \<Rightarrow> real \<Rightarrow> jsnum" where
  "mk_fin s m = (if m = 0 then (if s then NegZero else Fin 0)
                 else Fin (if s then - m else m))"

fun js_neg :: "jsnum \<Rightarrow> jsnum" where
  "js_neg (Fin r) = (if r = 0 then NegZero else Fin (- r))"
| "js_neg NegZero = Fin 0"
| "js_neg PosInf = NegInf"
| "js_neg NegInf = PosInf"
| "js_neg NaN = NaN"

definition js_add :: "jsnum \<Rightarrow> jsnum \<Rightarrow> jsnum" where
  "js_add a b =
     (if a = NaN \<or> b = NaN then NaN
      else if is_inf a then (if is_inf b \<and> sign_neg a \<noteq> sign_neg b then NaN else a)
      else if is_inf b then b
      else if is_zero a \<and> is_zero b
        then (if sign_neg a \<and> sign_neg b then NegZero else Fin 0)
      else Fin (val a + val b))"

definition js_sub :: "jsnum \<Rightarrow> jsnum \<Rightarrow> jsnum" where
  "js_sub a b = js_add a (js_neg b)"

definition js_mul :: "jsnum \<Rightarrow> jsnum \<Rightarrow> jsnum" where
  "js_mul a b =
     (if a = NaN \<or> b = NaN then NaN
      else if (is_inf a \<and> is_zero b) \<or> (is_zero a \<and> is_inf b) then NaN
      else if is_inf a \<or> is_inf b then mk_inf (sign_neg a \<noteq> sign_neg b)
      else mk_fin (sign_neg a \<noteq> sign_neg b) (\<bar>val a\<bar> * \<bar>val b\<bar>))"

definition js_div :: "jsnum \<Rightarrow> jsnum \<Rightarrow> jsnum" where
  "js_div a b =
     (if a = NaN \<or> b = NaN then NaN
      else if (is_inf a \<and> is_inf b) \<or> (is_zero a \<and> is_zero b) then NaN
      else if is_inf a \<or> is_zero b then mk_inf (sign_neg a \<noteq> sign_neg b)
      else if is_inf b then mk_fin (sign_neg a \<noteq> sign_neg b) 0
      else mk_fin (sign_neg a \<noteq> sign_neg b) (\<bar>val a\<bar> / \<bar>val b\<bar>))"

text \<open>The integer part of a quotient, rounded towards zero.\<close>

definition js_trunc :: "real \<Rightarrow> int" where
  "js_trunc q = (if q < 0 then \<lceil>q\<rceil> else \<lfloor>q\<rfloor>)"

text \<open>
  The operator \<open>%\<close>: the remainder of the truncating division, with the sign of the
  dividend (also when the remainder is a zero).
\<close>

definition js_rem :: "jsnum \<Rightarrow> jsnum \<Rightarrow> jsnum" where
  "js_rem n d =
     (if n = NaN \<or> d = NaN \<or> is_inf n \<or> is_zero d then NaN
      else if is_inf d then n
      else if is_zero n then n
      else mk_fin (sign_neg n)
             \<bar>val n - val d * real_of_int (js_trunc (val n / val d))\<bar>)"

text \<open>The operator \<open><\<close>: false when an operand is NaN, and the two zeros are equal.\<close>

fun js_lt :: "jsnum \<Rightarrow> jsnum \<Rightarrow> bool" where
  "js_lt NaN _ = False"
| "js_lt _ NaN = False"
| "js_lt PosInf _ = False"
| "js_lt _ NegInf = False"
| "js_lt NegInf _ = True"
| "js_lt _ PosInf = True"
| "js_lt a b = (val a < val b)"


section \<open>GearMath: the functions in exact arithmetic\<close>

text \<open>
  The methods of the object \<open>GearMath\<close>, called on that object, so that
  \<open>this.normalizeAngle\<close> is \<open>normalizeAngle\<close> below.
\<close>


text \<open>
  \<^verbatim>\<open>planetaryRingTeeth: function(sunTeeth, planetTeeth) {
      return sunTeeth + 2 * planetTeeth; }\<close>
\<close>

definition planetaryRingTeeth :: "jsnum \<Rightarrow> jsnum \<Rightarrow> jsnum" where
  "planetaryRingTeeth sunTeeth planetTeeth = js_add sunTeeth (js_mul (Fin 2) planetTeeth)"

text \<open>
  \<^verbatim>\<open>planetaryRingSpeed: function(sunOmega, carrierOmega, sunTeeth, ringTeeth) {
      return ((sunTeeth + ringTeeth) * carrierOmega - sunTeeth * sunOmega) / ringTeeth; }\<close>
\<close>

definition planetaryRingSpeed :: "jsnum \<Rightarrow> jsnum \<Rightarrow> jsnum \<Rightarrow> jsnum \<Rightarrow> jsnum" where
  "planetaryRingSpeed sunOmega carrierOmega sunTeeth ringTeeth =
     js_div (js_sub (js_mul (js_add sunTeeth ringTeeth) carrierOmega)
                    (js_mul sunTeeth sunOmega))
            ringTeeth"




section \<open>Binary64 arithmetic\<close>

text \<open>
  \<open>pow2 e\<close> is \<open>2 ^ e\<close> for an integer exponent. \<open>round_even\<close> rounds a real to the
  nearest integer, a tie to the even one.
\<close>

definition pow2 :: "int \<Rightarrow> real" where
  "pow2 e = (if 0 \<le> e then 2 ^ nat e else 1 / 2 ^ nat (- e))"

definition round_even :: "real \<Rightarrow> int" where
  "round_even q =
     (let f = \<lfloor>q\<rfloor>; d = q - real_of_int f
      in if d < 1 / 2 then f else if 1 / 2 < d then f + 1
         else if even f then f else f + 1)"

text \<open>
  The exponent of the last mantissa bit of the doubles around \<open>x\<close>: 52 below the
  binary exponent of \<open>x\<close>, and \<open>- 1074\<close> in the subnormal range.
\<close>

definition ulp_exp :: "real \<Rightarrow> int" where
  "ulp_exp x = max (\<lfloor>log 2 \<bar>x\<bar>\<rfloor> - 52) (- 1074)"

text \<open>
  The nearest multiple of \<open>2 ^ ulp_exp x\<close>, a tie going to the even mantissa; a value
  that reaches \<open>2 ^ 1024\<close> stands for an overflow. \<open>is_double x\<close> says that \<open>x\<close> is
  a finite double.
\<close>

definition round64 :: "real \<Rightarrow> real" where
  "round64 x = (if x = 0 then 0
                else real_of_int (round_even (x / pow2 (ulp_exp x))) * pow2 (ulp_exp x))"

definition is_double :: "real \<Rightarrow> bool" where
  "is_double x = (round64 x = x \<and> \<bar>x\<bar> < pow2 1024)"

text \<open>
  The rounded result of an operation with the exact finite result \<open>x\<close>; \<open>s\<close> is the
  sign of a zero result.
\<close>

definition rnd64 :: "bool \<Rightarrow> real \<Rightarrow> jsnum" where
  "rnd64 s x =
     (let y = round64 x
      in if pow2 1024 \<le> \<bar>y\<bar> then mk_inf (y < 0)
         else if y = 0 then (if s then NegZero else Fin 0)
         else Fin y)"

definition js_add64 :: "jsnum \<Rightarrow> jsnum \<Rightarrow> jsnum" where
  "js_add64 a b =
     (if a = NaN \<or> b = NaN then NaN
      else if is_inf a then (if is_inf b \<and> sign_neg a \<noteq> sign_neg b then NaN else a)
      else if is_inf b then b
      else if is_zero a \<and> is_zero b
        then (if sign_neg a \<and> sign_neg b then NegZero else Fin 0)
      else rnd64 (val a + val b < 0) (val a + val b))"

definition js_sub64 :: "jsnum \<Rightarrow> jsnum \<Rightarrow> jsnum" where
  "js_sub64 a b = js_add64 a (js_neg b)"

definition js_mul64 :: "jsnum \<Rightarrow> jsnum \<Rightarrow> jsnum" where
  "js_mul64 a b =
     (if a = NaN \<or> b = NaN then NaN
      else if (is_inf a \<and> is_zero b) \<or> (is_zero a \<and> is_inf b) then NaN
      else if is_inf a \<or> is_inf b then mk_inf (sign_neg a \<noteq> sign_neg b)
      else rnd64 (sign_neg a \<noteq> sign_neg b) (val a * val b))"

definition js_div64 :: "jsnum \<Rightarrow> jsnum \<Rightarrow> jsnum" where
  "js_div64 a b =
     (if a = NaN \<or> b = NaN then NaN
      else if (is_inf a \<and> is_inf b) \<or> (is_zero a \<and> is_zero b) then NaN
      else if is_inf a \<or> is_zero b then mk_inf (sign_neg a \<noteq> sign_neg b)
      else if is_inf b then mk_fin (sign_neg a \<noteq> sign_neg b) 0
      else rnd64 (sign_neg a \<noteq> sign_neg b) (val a / val b))"

text \<open>\<open>Math.PI\<close> is the double \<open>0x400921FB54442D18\<close>.\<close>

definition pi64 :: real where
  "pi64 = 884279719003555 / 2 ^ 48"

definition Math_PI64 :: jsnum where
  "Math_PI64 = Fin pi64"

section \<open>GearMath: the functions in binary64 arithmetic\<close>

text \<open>
  The source lines of the five functions with a division, as above, with the rounding
  operators in place of the exact ones. \<open>childOffset64\<close> and
  \<open>internalMeshOffset64\<close> are the values of the variable \<open>offset\<close> in
  \<open>calculateChildPhase\<close> and \<open>calculateInternalMeshPhase\<close>.
\<close>

definition normalizeAngle64 :: "jsnum \<Rightarrow> jsnum" where
  "normalizeAngle64 angle =
     (let angle1 = js_rem angle (js_mul64 (Fin 2) Math_PI64)
      in if js_lt angle1 (Fin 0) then js_add64 angle1 (js_mul64 (Fin 2) Math_PI64)
         else angle1)"

definition planetaryRingSpeed64 :: "jsnum \<Rightarrow> jsnum \<Rightarrow> jsnum \<Rightarrow> jsnum \<Rightarrow> jsnum" where
  "planetaryRingSpeed64 sunOmega carrierOmega sunTeeth ringTeeth =
     js_div64 (js_sub64 (js_mul64 (js_add64 sunTeeth ringTeeth) carrierOmega)
                        (js_mul64 sunTeeth sunOmega))
              ringTeeth"






section \<open>Notions used to state the properties\<close>

text \<open>Two reals differ by an integer multiple of \<open>m\<close>.\<close>

definition cong_mod :: "real \<Rightarrow> real \<Rightarrow> real \<Rightarrow> bool" where
  "cong_mod m x y = ((x - y) / m \<in> \<int>)"

text \<open>
  \<open>tau64\<close> is the double \<open>2 * Math.PI\<close>. \<open>fmod64 x\<close> is the remainder
  \<open>x % (2 * Math.PI)\<close>, which has the sign of \<open>x\<close>, and \<open>wrap64 x\<close> the real number
  in the half-open interval from 0 to \<open>tau64\<close> that differs from \<open>x\<close> by a multiple
  of \<open>tau64\<close>.
\<close>

definition tau64 :: real where
  "tau64 = 2 * pi64"

definition fmod64 :: "real \<Rightarrow> real" where
  "fmod64 x = x - tau64 * real_of_int (js_trunc (x / tau64))"

definition wrap64 :: "real \<Rightarrow> real" where
  "wrap64 x = (if fmod64 x < 0 then fmod64 x + tau64 else fmod64 x)"

text \<open>
  \<open>slip64 x\<close>: the remainder of \<open>x\<close> is negative and so small that adding
  \<open>2 * Math.PI\<close> to it rounds to \<open>2 * Math.PI\<close> itself. \<open>no_slip64 a\<close>: the number
  \<open>a\<close> is finite and its value is not such an \<open>x\<close>. \<open>in_range64 a\<close>: the number
  \<open>a\<close> is finite and its value lies in the half-open interval from 0 to \<open>tau64\<close>.
\<close>

definition slip64 :: "real \<Rightarrow> bool" where
  "slip64 x = (- pow2 (- 51) \<le> fmod64 x \<and> fmod64 x < 0)"


definition in_range64 :: "jsnum \<Rightarrow> bool" where
  "in_range64 a = (case js_val a of None \<Rightarrow> False | Some r \<Rightarrow> 0 \<le> r \<and> r < tau64)"

text \<open>The doubles written \<open>1e-20\<close> and \<open>0.1\<close> in JavaScript.\<close>

definition tiny64 :: real where
  "tiny64 = 6646139978924579 / 2 ^ 119"

definition tenth64 :: real where
  "tenth64 = 3602879701896397 / 2 ^ 55"


section \<open>The value of the exact operators on finite numbers\<close>

lemma js_val_mk_fin: "js_val (mk_fin s m) = Some (if s then - m else m)"
  by (simp add: mk_fin_def)

lemma js_val_neg: "js_val a = Some x \<Longrightarrow> js_val (js_neg a) = Some (- x)"
  by (cases a) auto







lemma js_div_zero: "is_zero b \<Longrightarrow> js_div a b = PosInf \<or> js_div a b = NegInf \<or> js_div a b = NaN"
  by (cases b) (auto simp: js_div_def mk_inf_def)










section \<open>Powers of two and rounding\<close>

lemma pow2_powr: "pow2 e = 2 powr (real_of_int e)"
proof (cases "0 \<le> e")
  case True
  then have "2 powr (real_of_int e) = (2::real) ^ nat e"
    by (metis of_int_of_nat_eq of_nat_nat powr_realpow zero_less_numeral)
  then show ?thesis using True by (simp add: pow2_def)
next
  case False
  then have "real_of_int e = - real (nat (- e))" by simp
  then have "2 powr (real_of_int e) = 1 / (2::real) ^ nat (- e)"
    by (metis inverse_eq_divide powr_minus powr_realpow zero_less_numeral)
  then show ?thesis using False by (simp add: pow2_def)
qed

lemma pow2_pos [simp]: "0 < pow2 e"
  by (simp add: pow2_powr)

lemma pow2_nonneg [simp]: "0 \<le> pow2 e"
  using pow2_pos [of e] by linarith

lemma pow2_neq0 [simp]: "pow2 e \<noteq> 0"
  using pow2_pos [of e] by linarith

lemma abs_pow2 [simp]: "\<bar>pow2 e\<bar> = pow2 e"
  by simp

lemma pow2_add: "pow2 (a + b) = pow2 a * pow2 b"
  by (simp add: pow2_powr powr_add)

lemma pow2_diff: "pow2 (a - b) = pow2 a / pow2 b"
  by (simp add: pow2_powr powr_diff)

lemma pow2_mono: "a \<le> b \<Longrightarrow> pow2 a \<le> pow2 b"
  by (simp add: pow2_powr)

lemma pow2_strict_mono: "a < b \<Longrightarrow> pow2 a < pow2 b"
  by (simp add: pow2_powr)

lemma pow2_less_iff: "pow2 a < pow2 b \<longleftrightarrow> a < b"
  by (simp add: pow2_powr)

lemma pow2_le_iff: "pow2 a \<le> pow2 b \<longleftrightarrow> a \<le> b"
  by (simp add: pow2_powr)

lemma pow2_nat: "0 \<le> e \<Longrightarrow> pow2 e = real_of_int (2 ^ nat e)"
  by (simp add: pow2_def)

lemma bexp_eq:
  assumes "pow2 k \<le> \<bar>x\<bar>" and "\<bar>x\<bar> < pow2 (k + 1)"
  shows "\<lfloor>log 2 \<bar>x\<bar>\<rfloor> = k"
proof -
  have "0 < \<bar>x\<bar>" using assms(1) pow2_pos [of k] by linarith
  then show ?thesis
    using assms by (simp add: floor_log_eq_powr_iff pow2_powr)
qed

lemma bexp_bounds:
  assumes "x \<noteq> 0"
  shows "pow2 \<lfloor>log 2 \<bar>x\<bar>\<rfloor> \<le> \<bar>x\<bar>" and "\<bar>x\<bar> < pow2 (\<lfloor>log 2 \<bar>x\<bar>\<rfloor> + 1)"
proof -
  have "0 < \<bar>x\<bar>" using assms by simp
  then have "2 powr (real_of_int \<lfloor>log 2 \<bar>x\<bar>\<rfloor>) \<le> \<bar>x\<bar>
             \<and> \<bar>x\<bar> < 2 powr (real_of_int (\<lfloor>log 2 \<bar>x\<bar>\<rfloor> + 1))"
    using floor_log_eq_powr_iff [of "\<bar>x\<bar>" 2 "\<lfloor>log 2 \<bar>x\<bar>\<rfloor>"] by simp
  then show "pow2 \<lfloor>log 2 \<bar>x\<bar>\<rfloor> \<le> \<bar>x\<bar>" and "\<bar>x\<bar> < pow2 (\<lfloor>log 2 \<bar>x\<bar>\<rfloor> + 1)"
    by (simp_all add: pow2_powr)
qed

lemma round64_normal:
  assumes "pow2 (e + 52) \<le> \<bar>x\<bar>" and "\<bar>x\<bar> < pow2 (e + 53)" and "- 1074 \<le> e"
  shows "round64 x = real_of_int (round_even (x / pow2 e)) * pow2 e"
proof -
  have "\<lfloor>log 2 \<bar>x\<bar>\<rfloor> = e + 52"
    using assms(1,2) bexp_eq [of "e + 52" x] by (simp add: add.commute add.left_commute)
  then have "ulp_exp x = e" using assms(3) by (simp add: ulp_exp_def)
  moreover have "0 < \<bar>x\<bar>" using assms(1) pow2_pos [of "e + 52"] by linarith
  then have "x \<noteq> 0" by simp
  ultimately show ?thesis by (simp add: round64_def)
qed

lemma round64_at:
  assumes "- 1074 \<le> e" and "pow2 (e + 52) \<le> \<bar>x\<bar>" and "\<bar>x\<bar> < pow2 (e + 53)"
    and "round_even (x / pow2 e) = m"
  shows "round64 x = real_of_int m * pow2 e"
  using round64_normal [OF assms(2,3,1)] assms(4) by simp

subsection \<open>round_even\<close>

lemma round_even_of_int [simp]: "round_even (real_of_int n) = n"
  by (simp add: round_even_def)

lemma round_even_error: "\<bar>real_of_int (round_even q) - q\<bar> \<le> 1 / 2"
proof -
  have "real_of_int \<lfloor>q\<rfloor> \<le> q" "q < real_of_int \<lfloor>q\<rfloor> + 1" by linarith+
  then show ?thesis by (auto simp: round_even_def Let_def)
qed

lemma round_even_le: "q \<le> real_of_int n \<Longrightarrow> round_even q \<le> n"
proof -
  assume a: "q \<le> real_of_int n"
  have f: "\<lfloor>q\<rfloor> \<le> n" using a by (simp add: floor_le_iff)
  show ?thesis
  proof (cases "\<lfloor>q\<rfloor> = n")
    case True
    then have "q = real_of_int n" using a by linarith
    then show ?thesis by simp
  next
    case False
    with f have "\<lfloor>q\<rfloor> + 1 \<le> n" by simp
    then show ?thesis by (auto simp: round_even_def Let_def)
  qed
qed

lemma round_even_less_half: "q < real_of_int n - 1 / 2 \<Longrightarrow> round_even q \<le> n - 1"
proof -
  assume a: "q < real_of_int n - 1 / 2"
  have "real_of_int (round_even q) \<le> q + 1 / 2" using round_even_error [of q] by linarith
  then have "real_of_int (round_even q) < real_of_int n" using a by linarith
  then show ?thesis by simp
qed

lemma round_even_nonneg: "0 \<le> q \<Longrightarrow> 0 \<le> round_even q"
proof -
  assume "0 \<le> q"
  then have "0 \<le> \<lfloor>q\<rfloor>" by simp
  then show ?thesis by (auto simp: round_even_def Let_def)
qed

subsection \<open>round64 on doubles, bounds and error\<close>

lemma ulp_exp_ge: "- 1074 \<le> ulp_exp x"
  by (simp add: ulp_exp_def)

lemma round64_mantissa:
  assumes "\<bar>m\<bar> < 2 ^ 53" and "- 1074 \<le> e"
  shows "round64 (real_of_int m * pow2 e) = real_of_int m * pow2 e"
proof (cases "m = 0")
  case True
  then show ?thesis by (simp add: round64_def)
next
  case False
  let ?x = "real_of_int m * pow2 e"
  have xnz: "?x \<noteq> 0" using False pow2_pos [of e] by simp
  have "\<bar>?x\<bar> = real_of_int \<bar>m\<bar> * pow2 e" by (simp add: abs_mult)
  also have "\<dots> < real_of_int (2 ^ 53) * pow2 e"
    using assms(1) pow2_pos [of e] by (intro mult_strict_right_mono) (simp_all del: of_int_power)
  also have "\<dots> = pow2 (53 + e)" by (simp add: pow2_add) (simp add: pow2_def)
  finally have up: "\<bar>?x\<bar> < pow2 (53 + e)" .
  have "pow2 \<lfloor>log 2 \<bar>?x\<bar>\<rfloor> < pow2 (53 + e)"
    using bexp_bounds(1) [OF xnz] up by linarith
  then have "\<lfloor>log 2 \<bar>?x\<bar>\<rfloor> < 53 + e" by (simp add: pow2_powr)
  then have le0: "ulp_exp ?x \<le> e" using assms(2) by (simp add: ulp_exp_def)
  define u where "u = ulp_exp ?x"
  have le: "u \<le> e" using le0 by (simp add: u_def)
  define d where "d = e - u"
  have d0: "0 \<le> d" using le by (simp add: d_def)
  have pe: "pow2 e = pow2 d * pow2 u" by (simp add: d_def pow2_add [symmetric])
  have "real_of_int m * (pow2 d * pow2 u) / pow2 u = real_of_int m * pow2 d" by simp
  then have q: "?x / pow2 u = real_of_int (m * 2 ^ nat d)"
    using d0 by (simp add: pe pow2_nat)
  have "round64 ?x = real_of_int (round_even (?x / pow2 u)) * pow2 u"
    using xnz by (simp add: round64_def u_def)
  also have "\<dots> = real_of_int (m * 2 ^ nat d) * pow2 u"
    by (simp only: q round_even_of_int)
  also have "\<dots> = ?x / pow2 u * pow2 u" by (simp only: q)
  also have "\<dots> = ?x" by simp
  finally show ?thesis .
qed

lemma is_double_mantissa:
  assumes "\<bar>m\<bar> < 2 ^ 53" and "- 1074 \<le> e" and "e \<le> 971"
  shows "is_double (real_of_int m * pow2 e)"
proof -
  have "\<bar>real_of_int m * pow2 e\<bar> = real_of_int \<bar>m\<bar> * pow2 e" by (simp add: abs_mult)
  also have "\<dots> \<le> real_of_int (2 ^ 53) * pow2 e"
    using assms(1) pow2_pos [of e] by (intro mult_right_mono) (simp_all del: of_int_power)
  also have "\<dots> = pow2 (53 + e)" by (simp add: pow2_add) (simp add: pow2_def)
  also have "\<dots> \<le> pow2 1024" using assms(3) by (intro pow2_mono) simp
  finally have "\<bar>real_of_int m * pow2 e\<bar> \<le> pow2 1024" .
  moreover have "\<bar>real_of_int m * pow2 e\<bar> \<noteq> pow2 1024"
  proof
    assume eq: "\<bar>real_of_int m * pow2 e\<bar> = pow2 1024"
    have "\<bar>real_of_int m * pow2 e\<bar> = real_of_int \<bar>m\<bar> * pow2 e" by (simp add: abs_mult)
    also have "\<dots> < real_of_int (2 ^ 53) * pow2 e"
      using assms(1) pow2_pos [of e] by (intro mult_strict_right_mono) (simp_all del: of_int_power)
    also have "\<dots> = pow2 (53 + e)" by (simp add: pow2_add) (simp add: pow2_def)
    also have "\<dots> \<le> pow2 1024" using assms(3) by (intro pow2_mono) simp
    finally show False using eq by simp
  qed
  ultimately show ?thesis
    using round64_mantissa [OF assms(1,2)] by (simp add: is_double_def)
qed

lemma is_double_int: "\<bar>n\<bar> < 2 ^ 53 \<Longrightarrow> is_double (real_of_int n)"
  using is_double_mantissa [of n 0] by (simp add: pow2_def)

lemma round64_nonneg: "0 \<le> y \<Longrightarrow> 0 \<le> round64 y"
proof -
  assume "0 \<le> y"
  then have "0 \<le> y / pow2 (ulp_exp y)" by simp
  then have "0 \<le> round_even (y / pow2 (ulp_exp y))" by (rule round_even_nonneg)
  then show ?thesis by (simp add: round64_def)
qed

lemma round64_le_pow2:
  assumes "0 < y" and "y \<le> pow2 j" and "- 1074 \<le> j"
  shows "round64 y \<le> pow2 j"
proof -
  have ynz: "y \<noteq> 0" using assms(1) by simp
  have "pow2 \<lfloor>log 2 \<bar>y\<bar>\<rfloor> \<le> pow2 j" using bexp_bounds(1) [OF ynz] assms(1,2) by simp
  then have "\<lfloor>log 2 \<bar>y\<bar>\<rfloor> \<le> j" by (simp add: pow2_powr)
  then have le: "ulp_exp y \<le> j" using assms(3) by (simp add: ulp_exp_def)
  define d where "d = j - ulp_exp y"
  have d0: "0 \<le> d" using le by (simp add: d_def)
  have pj: "pow2 j = pow2 d * pow2 (ulp_exp y)" by (simp add: d_def pow2_add [symmetric])
  have "y / pow2 (ulp_exp y) \<le> pow2 d"
    using assms(2) pow2_pos [of "ulp_exp y"] by (simp add: pj pos_divide_le_eq)
  then have "y / pow2 (ulp_exp y) \<le> real_of_int (2 ^ nat d)" using d0 by (simp add: pow2_nat)
  then have "round_even (y / pow2 (ulp_exp y)) \<le> 2 ^ nat d" by (rule round_even_le)
  then have "real_of_int (round_even (y / pow2 (ulp_exp y))) \<le> pow2 d"
    using d0 by (simp add: pow2_nat del: of_int_power) 
  then have "real_of_int (round_even (y / pow2 (ulp_exp y))) * pow2 (ulp_exp y)
               \<le> pow2 d * pow2 (ulp_exp y)"
    using pow2_pos [of "ulp_exp y"] by (intro mult_right_mono) simp_all
  then show ?thesis using ynz by (simp add: round64_def pj)
qed

lemma round64_error:
  "y \<noteq> 0 \<Longrightarrow> \<bar>round64 y - y\<bar> \<le> pow2 (ulp_exp y) / 2"
proof -
  assume ynz: "y \<noteq> 0"
  let ?u = "pow2 (ulp_exp y)"
  have u: "0 < ?u" by simp
  have "round64 y - y = (real_of_int (round_even (y / ?u)) - y / ?u) * ?u"
    using ynz u by (simp add: round64_def field_simps)
  then have "\<bar>round64 y - y\<bar> = \<bar>real_of_int (round_even (y / ?u)) - y / ?u\<bar> * ?u"
    using u by (simp add: abs_mult)
  also have "\<dots> \<le> (1 / 2) * ?u"
    using round_even_error [of "y / ?u"] u by (intro mult_right_mono) simp_all
  finally show ?thesis by simp
qed

lemma ulp_exp_below_8:
  assumes "0 < y" and "y < pow2 3"
  shows "ulp_exp y \<le> - 50"
proof -
  have ynz: "y \<noteq> 0" using assms(1) by simp
  have "pow2 \<lfloor>log 2 \<bar>y\<bar>\<rfloor> < pow2 3" using bexp_bounds(1) [OF ynz] assms by simp
  then have "\<lfloor>log 2 \<bar>y\<bar>\<rfloor> < 3" by (simp only: pow2_less_iff)
  then show ?thesis by (simp add: ulp_exp_def)
qed

section \<open>The rounding operators\<close>

lemma rnd64_exact: "is_double x \<Longrightarrow> js_val (rnd64 s x) = Some x"
  by (auto simp: is_double_def rnd64_def Let_def)

lemma rnd64_Fin:
  assumes "round64 x = y" and "y \<noteq> 0" and "\<bar>y\<bar> \<le> pow2 64"
  shows "rnd64 s x = Fin y"
proof -
  have "pow2 64 < pow2 1024" by (rule pow2_strict_mono) simp
  then have "\<not> pow2 1024 \<le> \<bar>y\<bar>" using assms(3) by linarith
  then show ?thesis using assms(1,2) by (simp add: rnd64_def Let_def)
qed

lemma js_val_add64:
  assumes "js_val a = Some x" and "js_val b = Some y" and "is_double (x + y)"
  shows "js_val (js_add64 a b) = Some (x + y)"
  using assms by (cases a; cases b) (auto simp: js_add64_def rnd64_exact)

lemma js_val_sub64:
  assumes "js_val a = Some x" and "js_val b = Some y" and "is_double (x - y)"
  shows "js_val (js_sub64 a b) = Some (x - y)"
  using js_val_add64 [OF assms(1) js_val_neg [OF assms(2)]] assms(3) by (simp add: js_sub64_def)

lemma js_val_mul64:
  assumes "js_val a = Some x" and "js_val b = Some y" and "is_double (x * y)"
  shows "js_val (js_mul64 a b) = Some (x * y)"
  using assms by (cases a; cases b) (auto simp: js_mul64_def rnd64_exact)

lemma js_val_div64:
  assumes "js_val a = Some x" and "js_val b = Some y" and "y \<noteq> 0" and "is_double (x / y)"
  shows "js_val (js_div64 a b) = Some (x / y)"
  using assms by (cases a; cases b) (auto simp: js_div64_def rnd64_exact)

lemma js_add64_Fin:
  assumes "round64 (a + b) = y" and "y \<noteq> 0" and "\<bar>y\<bar> \<le> pow2 64"
  shows "js_add64 (Fin a) (Fin b) = Fin y"
proof -
  have "\<not> (a = 0 \<and> b = 0)" using assms(1,2) by (auto simp: round64_def)
  then show ?thesis using rnd64_Fin [OF assms] by (auto simp: js_add64_def)
qed

lemma js_sub64_Fin:
  assumes "round64 (a - b) = y" and "y \<noteq> 0" and "\<bar>y\<bar> \<le> pow2 64"
  shows "js_sub64 (Fin a) (Fin b) = Fin y"
proof -
  have nz: "\<not> (a = 0 \<and> b = 0)" using assms(1,2) by (auto simp: round64_def)
  show ?thesis
  proof (cases "b = 0")
    case True
    with nz have "a \<noteq> 0" by simp
    then show ?thesis using True rnd64_Fin [OF assms] by (simp add: js_sub64_def js_add64_def)
  next
    case False
    then show ?thesis using rnd64_Fin [OF assms] by (simp add: js_sub64_def js_add64_def)
  qed
qed

lemma js_mul64_Fin:
  assumes "round64 (a * b) = y" and "y \<noteq> 0" and "\<bar>y\<bar> \<le> pow2 64"
  shows "js_mul64 (Fin a) (Fin b) = Fin y"
  using rnd64_Fin [OF assms] by (simp add: js_mul64_def)

lemma js_div64_Fin:
  assumes "round64 (a / b) = y" and "b \<noteq> 0" and "y \<noteq> 0" and "\<bar>y\<bar> \<le> pow2 64"
  shows "js_div64 (Fin a) (Fin b) = Fin y"
  using rnd64_Fin [OF assms(1,3,4)] assms(2) by (simp add: js_div64_def)

lemma js_val_Fin: "js_val a = Some v \<Longrightarrow> v \<noteq> 0 \<Longrightarrow> a = Fin v"
  by (cases a) auto

section \<open>The remainder modulo 2 * Math.PI\<close>

lemma tau64_mantissa: "tau64 = real_of_int 7074237752028440 * pow2 (- 50)"
  by (simp add: tau64_def pi64_def pow2_def)

lemma tau64_numeral: "tau64 = 884279719003555 / 2 ^ 47"
  by (simp add: tau64_def pi64_def)

lemma tau64_pos [simp]: "0 < tau64"
  by (simp add: tau64_def pi64_def)

lemma tau64_nonneg [simp]: "0 \<le> tau64"
  using tau64_pos by linarith

lemma tau64_neq0 [simp]: "tau64 \<noteq> 0"
  using tau64_pos by linarith

lemma tau64_not_neg [simp]: "\<not> tau64 < 0"
  using tau64_pos by linarith

lemma tau64_le_8: "tau64 \<le> pow2 3"
  by (simp add: tau64_def pi64_def pow2_def)

lemma is_double_tau64: "is_double tau64"
  unfolding tau64_mantissa by (rule is_double_mantissa) simp_all

lemma two_pi64: "js_mul64 (Fin 2) Math_PI64 = Fin tau64"
proof -
  have "round64 tau64 = tau64" "\<bar>tau64\<bar> < pow2 1024"
    using is_double_tau64 by (simp_all add: is_double_def)
  moreover have "tau64 \<noteq> 0" using tau64_pos by linarith
  ultimately have "rnd64 False tau64 = Fin tau64"
    by (simp add: rnd64_def Let_def)
  then show ?thesis
    by (simp add: js_mul64_def Math_PI64_def tau64_def pi64_def)
qed

lemma fmod64_nonneg:
  assumes "0 \<le> x"
  shows "0 \<le> fmod64 x" and "fmod64 x < tau64"
    and "fmod64 x = x - tau64 * real_of_int \<lfloor>x / tau64\<rfloor>"
proof -
  have "0 \<le> x / tau64" using assms by simp
  then show e: "fmod64 x = x - tau64 * real_of_int \<lfloor>x / tau64\<rfloor>"
    by (simp add: fmod64_def js_trunc_def)
  show "0 \<le> fmod64 x"
    unfolding e using floor_divide_lower [OF tau64_pos, of x] by (simp add: mult.commute)
  show "fmod64 x < tau64"
    unfolding e using floor_divide_upper [OF tau64_pos, of x] by (simp add: algebra_simps)
qed

lemma fmod64_neg:
  assumes "x < 0"
  shows "fmod64 x \<le> 0" and "- tau64 < fmod64 x"
    and "fmod64 x = x - tau64 * real_of_int \<lceil>x / tau64\<rceil>"
proof -
  have "x / tau64 < 0" using assms by (simp add: divide_neg_pos)
  then show e: "fmod64 x = x - tau64 * real_of_int \<lceil>x / tau64\<rceil>"
    by (simp add: fmod64_def js_trunc_def)
  show "fmod64 x \<le> 0"
    unfolding e using ceiling_divide_upper [OF tau64_pos, of x] by (simp add: mult.commute)
  show "- tau64 < fmod64 x"
    unfolding e using ceiling_divide_lower [OF tau64_pos, of x] by (simp add: algebra_simps)
qed

lemma fmod64_bounds: "- tau64 < fmod64 x" "fmod64 x < tau64"
proof -
  show "- tau64 < fmod64 x"
  proof (cases "x < 0")
    case True then show ?thesis by (rule fmod64_neg(2))
  next
    case False
    then have "0 \<le> fmod64 x" using fmod64_nonneg(1) [of x] by simp
    then show ?thesis using tau64_pos by linarith
  qed
  show "fmod64 x < tau64"
  proof (cases "x < 0")
    case True
    then have "fmod64 x \<le> 0" by (rule fmod64_neg(1))
    then show ?thesis using tau64_pos by linarith
  next
    case False then show ?thesis using fmod64_nonneg(2) [of x] by simp
  qed
qed

lemma fmod64_zero [simp]: "fmod64 0 = 0"
  by (simp add: fmod64_def js_trunc_def)

lemma fmod64_cong: "cong_mod tau64 (fmod64 x) x"
proof -
  have "tau64 \<noteq> 0" using tau64_pos by linarith
  then have "(fmod64 x - x) / tau64 = real_of_int (- js_trunc (x / tau64))"
    by (simp add: fmod64_def)
  then show ?thesis unfolding cong_mod_def by (metis Ints_of_int)
qed

lemma wrap64_cong: "cong_mod tau64 (wrap64 x) x"
proof -
  have nz: "tau64 \<noteq> 0" using tau64_pos by linarith
  have "(fmod64 x - x) / tau64 \<in> \<int>" using fmod64_cong [of x] by (simp add: cong_mod_def)
  moreover have "(fmod64 x + tau64 - x) / tau64 = (fmod64 x - x) / tau64 + 1"
    using nz by (simp add: field_simps)
  ultimately show ?thesis by (auto simp: wrap64_def cong_mod_def)
qed

lemma wrap64_range: "0 \<le> wrap64 x" "wrap64 x < tau64"
  using fmod64_bounds [of x] by (auto simp: wrap64_def)

lemma wrap64_floor: "wrap64 x = x - tau64 * real_of_int \<lfloor>x / tau64\<rfloor>"
proof (cases "x < 0")
  case False
  then have "0 \<le> x" by simp
  from fmod64_nonneg [OF this] show ?thesis by (simp add: wrap64_def)
next
  case True
  note n = fmod64_neg [OF True]
  let ?q = "x / tau64"
  show ?thesis
  proof (cases "fmod64 x = 0")
    case z: True
    then have "x = tau64 * real_of_int \<lceil>?q\<rceil>" using n(3) by simp
    then have "?q = real_of_int \<lceil>?q\<rceil>" by (simp add: field_simps)
    then have "\<lfloor>?q\<rfloor> = \<lceil>?q\<rceil>" by (metis floor_of_int)
    then show ?thesis using z n(3) by (simp add: wrap64_def)
  next
    case False
    with n(1) have neg: "fmod64 x < 0" by simp
    then have "x < tau64 * real_of_int \<lceil>?q\<rceil>" using n(3) by simp
    then have "?q < real_of_int \<lceil>?q\<rceil>" by (simp add: pos_divide_less_eq mult.commute)
    then have "?q \<notin> \<int>" by (metis Ints_cases ceiling_of_int less_irrefl)
    then have "?q \<noteq> real_of_int \<lfloor>?q\<rfloor>" by (metis Ints_of_int)
    then have "\<lceil>?q\<rceil> = \<lfloor>?q\<rfloor> + 1" by (simp add: ceiling_altdef)
    then have "fmod64 x = x - tau64 * (real_of_int \<lfloor>?q\<rfloor> + 1)" using n(3) by simp
    then show ?thesis using neg by (simp add: wrap64_def algebra_simps)
  qed
qed

lemma wrap64_eqI:
  assumes "0 \<le> x - tau64 * real_of_int k" and "x - tau64 * real_of_int k < tau64"
  shows "wrap64 x = x - tau64 * real_of_int k"
proof -
  have "real_of_int k \<le> x / tau64" using assms(1) by (simp add: pos_le_divide_eq mult.commute)
  moreover have "x / tau64 < real_of_int k + 1"
    using assms(2) by (simp add: pos_divide_less_eq algebra_simps)
  ultimately have "\<lfloor>x / tau64\<rfloor> = k" by linarith
  then show ?thesis by (simp add: wrap64_floor)
qed


lemma not_Ints_strictly_between:
  assumes "real_of_int k < q" and "q < real_of_int k + 1"
  shows "q \<notin> \<int>"
proof
  assume "q \<in> \<int>"
  then obtain j :: int where "q = real_of_int j" by (auto elim: Ints_cases)
  with assms show False by simp
qed

section \<open>The value of normalizeAngle64\<close>

lemma js_rem_tau64:
  assumes "x \<noteq> 0"
  shows "js_rem (Fin x) (Fin tau64) = mk_fin (x < 0) \<bar>fmod64 x\<bar>"
proof -
  have "tau64 \<noteq> 0" using tau64_pos by linarith
  then show ?thesis using assms by (simp add: js_rem_def fmod64_def)
qed

lemma round64_below_tau64:
  assumes "0 < y" and "y < tau64"
  shows "0 \<le> round64 y" and "round64 y \<le> pow2 3"
proof -
  show "0 \<le> round64 y" using assms(1) by (intro round64_nonneg) simp
  have "y \<le> pow2 3" using assms(2) tau64_le_8 by linarith
  then show "round64 y \<le> pow2 3" using assms(1) by (intro round64_le_pow2) simp_all
qed

lemma rnd64_below_tau64:
  assumes "0 < y" and "y < tau64"
  shows "js_val (rnd64 s y) = Some (round64 y)"
proof -
  have "\<bar>round64 y\<bar> \<le> pow2 3" using round64_below_tau64 [OF assms] by simp
  moreover have "pow2 3 < pow2 1024" by (rule pow2_strict_mono) simp
  ultimately have "\<not> pow2 1024 \<le> \<bar>round64 y\<bar>" by linarith
  then show ?thesis by (auto simp: rnd64_def Let_def)
qed

lemma normalizeAngle64_Fin:
  "js_val (normalizeAngle64 (Fin x))
     = Some (if fmod64 x < 0 then round64 (fmod64 x + tau64) else fmod64 x)"
proof (cases "x = 0")
  case True
  have "tau64 \<noteq> 0" using tau64_pos by linarith
  then show ?thesis using True
    by (simp add: normalizeAngle64_def two_pi64 js_rem_def fmod64_def js_trunc_def)
next
  case nz: False
  note rem = js_rem_tau64 [OF nz]
  show ?thesis
  proof (cases "fmod64 x < 0")
    case True
    then have neg: "x < 0" using fmod64_nonneg(1) [of x] by (cases "x < 0") auto
    have r: "js_rem (Fin x) (Fin tau64) = Fin (fmod64 x)"
      using True neg by (simp add: rem mk_fin_def)
    have y: "0 < fmod64 x + tau64" "fmod64 x + tau64 < tau64"
      using fmod64_bounds(1) [of x] True by linarith+
    have "js_add64 (Fin (fmod64 x)) (Fin tau64) = rnd64 False (fmod64 x + tau64)"
      using True y tau64_pos by (auto simp: js_add64_def)
    then show ?thesis
      using True rnd64_below_tau64 [OF y]
      by (simp add: normalizeAngle64_def two_pi64 r)
  next
    case False
    show ?thesis
    proof (cases "x < 0")
      case True
      then have "fmod64 x \<le> 0" by (rule fmod64_neg(1))
      with False have z: "fmod64 x = 0" by simp
      then have "js_rem (Fin x) (Fin tau64) = NegZero"
        using True by (simp add: rem mk_fin_def)
      then show ?thesis using z by (simp add: normalizeAngle64_def two_pi64)
    next
      case pos: False
      have "js_val (js_rem (Fin x) (Fin tau64)) = Some (fmod64 x)"
        using pos False by (simp add: rem js_val_mk_fin)
      moreover have "\<not> js_lt (js_rem (Fin x) (Fin tau64)) (Fin 0)"
        using pos False by (simp add: rem mk_fin_def)
      ultimately show ?thesis using False by (simp add: normalizeAngle64_def two_pi64 Let_def)
    qed
  qed
qed

lemma normalizeAngle64_NegZero: "normalizeAngle64 NegZero = NegZero"
  by (simp add: normalizeAngle64_def two_pi64 js_rem_def)

lemma normalizeAngle64_val:
  assumes "js_val a = Some x"
  shows "js_val (normalizeAngle64 a)
           = Some (if fmod64 x < 0 then round64 (fmod64 x + tau64) else fmod64 x)"
proof (cases a)
  case (Fin r)
  with assms show ?thesis by (simp add: normalizeAngle64_Fin)
next
  case NegZero
  with assms show ?thesis by (simp add: normalizeAngle64_NegZero)
qed (use assms in simp_all)

lemma round64_less_tau64:
  assumes "0 < y" and "y < tau64 - pow2 (- 51)"
  shows "round64 y < tau64"
proof (cases "pow2 2 \<le> y")
  case True
  have "y < pow2 3" using assms tau64_le_8 pow2_pos [of "- 51"] by linarith
  then have up: "\<bar>y\<bar> < pow2 (- 50 + 53)" using assms(1) by simp
  have lo: "pow2 (- 50 + 52) \<le> \<bar>y\<bar>" using True assms(1) by simp
  have r: "round64 y = real_of_int (round_even (y / pow2 (- 50))) * pow2 (- 50)"
    using lo up by (rule round64_normal) simp
  have "y / pow2 (- 50) < (tau64 - pow2 (- 51)) / pow2 (- 50)"
    using assms(2) by (simp add: divide_strict_right_mono)
  also have "\<dots> = real_of_int 7074237752028440 - 1 / 2"
    by (simp add: tau64_def pi64_def pow2_def)
  finally have "round_even (y / pow2 (- 50)) \<le> 7074237752028440 - 1"
    by (rule round_even_less_half)
  then have "real_of_int (round_even (y / pow2 (- 50))) \<le> 7074237752028439" by simp
  then have "round64 y \<le> 7074237752028439 * pow2 (- 50)"
    unfolding r by (intro mult_right_mono) simp_all
  also have "\<dots> < tau64" by (simp add: tau64_def pi64_def pow2_def)
  finally show ?thesis .
next
  case False
  then have "y \<le> pow2 2" by simp
  then have "round64 y \<le> pow2 2" using assms(1) by (intro round64_le_pow2) simp_all
  also have "\<dots> < tau64" by (simp add: tau64_def pi64_def pow2_def)
  finally show ?thesis .
qed

lemma normalizeAngle64_in_range:
  assumes "js_val a = Some x" and "\<not> slip64 x"
  shows "in_range64 (normalizeAngle64 a)"
proof (cases "fmod64 x < 0")
  case True
  with assms(2) have "fmod64 x < - pow2 (- 51)" by (simp add: slip64_def)
  then have y: "0 < fmod64 x + tau64" "fmod64 x + tau64 < tau64 - pow2 (- 51)"
    using fmod64_bounds(1) [of x] by linarith+
  have "0 \<le> round64 (fmod64 x + tau64)" using y(1) by (intro round64_nonneg) simp
  moreover have "round64 (fmod64 x + tau64) < tau64" using y by (rule round64_less_tau64)
  ultimately show ?thesis
    using True by (simp add: in_range64_def normalizeAngle64_val [OF assms(1)])
next
  case False
  then have "0 \<le> fmod64 x" by simp
  then show ?thesis
    using False fmod64_bounds(2) [of x]
    by (simp add: in_range64_def normalizeAngle64_val [OF assms(1)])
qed

lemma normalizeAngle64_error:
  assumes "js_val a = Some x"
  shows "\<exists>y. js_val (normalizeAngle64 a) = Some y \<and> \<bar>y - wrap64 x\<bar> \<le> pow2 (- 51)
             \<and> (0 \<le> fmod64 x \<longrightarrow> y = wrap64 x)"
proof (cases "fmod64 x < 0")
  case True
  let ?y = "fmod64 x + tau64"
  have y: "0 < ?y" "?y < tau64" using fmod64_bounds(1) [of x] True by linarith+
  have "ulp_exp ?y \<le> - 50" using y tau64_le_8 by (intro ulp_exp_below_8) simp_all
  then have "pow2 (ulp_exp ?y) \<le> pow2 (- 50)" by (rule pow2_mono)
  moreover have "\<bar>round64 ?y - ?y\<bar> \<le> pow2 (ulp_exp ?y) / 2"
    using y(1) by (intro round64_error) simp
  moreover have "pow2 (- 50) / 2 = pow2 (- 51)" by (simp add: pow2_def)
  ultimately have "\<bar>round64 ?y - ?y\<bar> \<le> pow2 (- 51)" by linarith
  then show ?thesis
    using True by (simp add: normalizeAngle64_val [OF assms] wrap64_def)
next
  case False
  then show ?thesis by (simp add: normalizeAngle64_val [OF assms] wrap64_def)
qed


lemma normalizeAngle64_fixed:
  assumes "0 \<le> y" and "y < tau64"
  shows "normalizeAngle64 (Fin y) = Fin y"
proof (cases "y = 0")
  case True
  then show ?thesis by (simp add: normalizeAngle64_def two_pi64 js_rem_def)
next
  case False
  with assms have pos: "0 < y" by simp
  have "0 \<le> y / tau64" "y / tau64 < 1" using assms by simp_all
  then have "\<lfloor>y / tau64\<rfloor> = 0" by linarith
  then have "fmod64 y = y" using \<open>0 \<le> y / tau64\<close> by (simp add: fmod64_def js_trunc_def)
  then have "js_rem (Fin y) (Fin tau64) = Fin y"
    using pos False by (simp add: js_rem_tau64 mk_fin_def)
  then show ?thesis using pos by (simp add: normalizeAngle64_def two_pi64)
qed

lemma normalizeAngle64_twice:
  assumes "\<not> slip64 x"
  shows "normalizeAngle64 (normalizeAngle64 (Fin x)) = normalizeAngle64 (Fin x)"
proof (cases "normalizeAngle64 (Fin x)")
  case (Fin y)
  have "in_range64 (normalizeAngle64 (Fin x))"
    using assms by (intro normalizeAngle64_in_range) simp_all
  then have "0 \<le> y" "y < tau64" using Fin by (simp_all add: in_range64_def)
  then show ?thesis using Fin by (simp add: normalizeAngle64_fixed)
next
  case NegZero
  then show ?thesis by (simp add: normalizeAngle64_NegZero)
qed (use normalizeAngle64_Fin [of x] in simp_all)

lemma normalizeAngle64_tau64: "normalizeAngle64 (Fin tau64) = Fin 0"
proof -
  have "fmod64 tau64 = 0" by (simp add: fmod64_def js_trunc_def)
  then show ?thesis
    by (simp add: normalizeAngle64_def two_pi64 js_rem_tau64 mk_fin_def)
qed

text \<open>At \<open>- 1e-20\<close> the remainder is the argument and the sum rounds to \<open>2 * Math.PI\<close>.\<close>

lemma tiny64_pos [simp]: "0 < tiny64"
  by (simp add: tiny64_def)

lemma is_double_tiny: "is_double (- tiny64)"
proof -
  have "is_double (real_of_int (- 6646139978924579) * pow2 (- 119))"
    by (rule is_double_mantissa) simp_all
  then show ?thesis by (simp add: pow2_def tiny64_def)
qed

lemma fmod64_tiny: "fmod64 (- tiny64) = - tiny64"
proof -
  have "\<lceil>- tiny64 / tau64\<rceil> = 0"
    unfolding tau64_numeral tiny64_def by (simp add: ceiling_eq_iff)
  moreover have "- tiny64 / tau64 < 0" by (simp add: divide_neg_pos)
  ultimately show ?thesis by (simp add: fmod64_def js_trunc_def)
qed

lemma round64_tiny_plus_tau64: "round64 (- tiny64 + tau64) = tau64"
proof -
  have "round64 (- (6646139978924579 / 2 ^ 119) + 884279719003555 / 2 ^ 47)
          = real_of_int 7074237752028440 * pow2 (- 50)"
    by (rule round64_at) (simp_all add: pow2_def round_even_def Let_def)
  then show ?thesis by (simp add: pow2_def tau64_numeral tiny64_def)
qed

lemma normalizeAngle64_tiny: "normalizeAngle64 (Fin (- tiny64)) = Fin tau64"
proof -
  have "js_val (normalizeAngle64 (Fin (- tiny64)))
          = Some (if fmod64 (- tiny64) < 0 then round64 (fmod64 (- tiny64) + tau64)
                  else fmod64 (- tiny64))"
    by (rule normalizeAngle64_Fin)
  also have "\<dots> = Some (round64 (- tiny64 + tau64))"
    unfolding fmod64_tiny by simp
  also have "\<dots> = Some tau64"
    by (simp only: round64_tiny_plus_tau64)
  finally show ?thesis by (rule js_val_Fin) simp
qed

text \<open>At \<open>- 0.1\<close> the remainder is the argument and the sum is rounded up.\<close>

lemma fmod64_tenth: "fmod64 (- tenth64) = - tenth64"
proof -
  have "\<lceil>- tenth64 / tau64\<rceil> = 0"
    unfolding tau64_numeral tenth64_def by (simp add: ceiling_eq_iff)
  moreover have "- tenth64 / tau64 < 0" by (simp add: divide_neg_pos tenth64_def)
  ultimately show ?thesis by (simp add: fmod64_def js_trunc_def)
qed

lemma round64_tenth_plus_tau64: "round64 (- tenth64 + tau64) = 3480823880672089 / 2 ^ 49"
proof -
  have "round64 (- (3602879701896397 / 2 ^ 55) + 884279719003555 / 2 ^ 47)
          = real_of_int 6961647761344178 * pow2 (- 50)"
    by (rule round64_at) (simp_all add: pow2_def round_even_def Let_def)
  then show ?thesis by (simp add: pow2_def tau64_numeral tenth64_def)
qed

lemma normalizeAngle64_tenth:
  "normalizeAngle64 (Fin (- tenth64)) = Fin (3480823880672089 / 2 ^ 49)"
proof -
  have "js_val (normalizeAngle64 (Fin (- tenth64)))
          = Some (if fmod64 (- tenth64) < 0 then round64 (fmod64 (- tenth64) + tau64)
                  else fmod64 (- tenth64))"
    by (rule normalizeAngle64_Fin)
  also have "\<dots> = Some (round64 (- tenth64 + tau64))"
    unfolding fmod64_tenth by (simp add: tenth64_def)
  also have "\<dots> = Some (3480823880672089 / 2 ^ 49)"
    by (simp only: round64_tenth_plus_tau64)
  finally show ?thesis by (rule js_val_Fin) simp
qed

section \<open>normalizeAngle\<close>

text \<open>
  C2, as stated, fails on doubles. At the double \<open>- 1e-20\<close>, \<open>normalizeAngle\<close> returns
  \<open>2 * Math.PI\<close>: the remainder \<open>- 1e-20\<close> is negative, and the sum
  \<open>- 1e-20 + 2 * Math.PI\<close> rounds to \<open>2 * Math.PI\<close>. The result is not below
  \<open>2 * Math.PI\<close>, it is not congruent to the argument, and
  \<open>normalizeAngle (- 1e-20 + 2 * Math.PI)\<close> is 0, a different value. At the double
  \<open>- 0.1\<close> the result is in the range, and the rounding of the sum
  \<open>- 0.1 + 2 * Math.PI\<close> makes it differ from every number congruent to the
  argument.
\<close>

theorem normalizeAngle64_contract_counterexample:
  "is_double (- tiny64)
   \<and> normalizeAngle64 (Fin (- tiny64)) = Fin tau64
   \<and> \<not> in_range64 (normalizeAngle64 (Fin (- tiny64)))
   \<and> \<not> cong_mod tau64 tau64 (- tiny64)
   \<and> normalizeAngle64 (js_add64 (Fin (- tiny64)) (Fin tau64)) = Fin 0
   \<and> normalizeAngle64 (Fin (- tenth64)) = Fin (3480823880672089 / 2 ^ 49)
   \<and> \<not> cong_mod tau64 (3480823880672089 / 2 ^ 49) (- tenth64)"
proof -
  have t: "\<not> cong_mod tau64 (3480823880672089 / 2 ^ 49) (- tenth64)"
    unfolding cong_mod_def tau64_numeral tenth64_def
    by (rule not_Ints_strictly_between [of 1]) simp_all
  have "js_add64 (Fin (- tiny64)) (Fin tau64) = Fin tau64"
    using round64_tiny_plus_tau64
    by (rule js_add64_Fin) (simp_all add: tau64_numeral pow2_def)
  then have p: "normalizeAngle64 (js_add64 (Fin (- tiny64)) (Fin tau64)) = Fin 0"
    by (simp add: normalizeAngle64_tau64)
  have c: "\<not> cong_mod tau64 tau64 (- tiny64)"
    unfolding cong_mod_def tau64_numeral tiny64_def
    by (rule not_Ints_strictly_between [of 1]) simp_all
  show ?thesis
    using is_double_tiny p c t
    by (simp add: normalizeAngle64_tiny normalizeAngle64_tenth in_range64_def)
qed

text \<open>
  C2, amended: for every finite \<open>x\<close>, \<open>normalizeAngle x\<close> is a finite number \<open>y\<close>. Let
  \<open>wrap64 x\<close> be the real number in the half-open interval from 0 to \<open>2 * Math.PI\<close>
  that is congruent to \<open>x\<close> modulo the double \<open>2 * Math.PI\<close>. Then \<open>y\<close> is \<open>wrap64 x\<close>
  itself when the remainder \<open>x % (2 * Math.PI)\<close> is not negative; and whenever that
  remainder is not in the interval from \<open>- 2 ^ - 51\<close> to 0, \<open>y\<close> is within \<open>2 ^ - 51\<close>
  of \<open>wrap64 x\<close> and \<open>0 \<le> y < 2 * Math.PI\<close>.
\<close>

theorem normalizeAngle64_contract:
  "\<exists>y. js_val (normalizeAngle64 (Fin x)) = Some y
       \<and> cong_mod tau64 (wrap64 x) x \<and> 0 \<le> wrap64 x \<and> wrap64 x < tau64
       \<and> (0 \<le> fmod64 x \<longrightarrow> y = wrap64 x)
       \<and> (\<not> slip64 x \<longrightarrow> \<bar>y - wrap64 x\<bar> \<le> pow2 (- 51) \<and> 0 \<le> y \<and> y < tau64)"
proof -
  obtain y where y: "js_val (normalizeAngle64 (Fin x)) = Some y"
    and e: "\<bar>y - wrap64 x\<bar> \<le> pow2 (- 51)" and z: "0 \<le> fmod64 x \<longrightarrow> y = wrap64 x"
    using normalizeAngle64_error [of "Fin x" x] by auto
  have "\<not> slip64 x \<longrightarrow> 0 \<le> y \<and> y < tau64"
  proof
    assume "\<not> slip64 x"
    then have "in_range64 (normalizeAngle64 (Fin x))"
      by (intro normalizeAngle64_in_range) simp_all
    then show "0 \<le> y \<and> y < tau64" using y by (simp add: in_range64_def)
  qed
  then show ?thesis
    using y e z wrap64_cong [of x] wrap64_range [of x] by blast
qed

text \<open>The instance at \<open>x = 7\<close>, where the result is \<open>7 - 2 * Math.PI\<close>.\<close>

theorem normalizeAngle64_contract_witness:
  "0 \<le> fmod64 7 \<and> \<not> slip64 7
   \<and> js_val (normalizeAngle64 (Fin 7)) = Some (7 - tau64)
   \<and> cong_mod tau64 (7 - tau64) 7 \<and> 0 \<le> 7 - tau64 \<and> 7 - tau64 < tau64"
proof -
  have w: "wrap64 7 = 7 - tau64 * real_of_int 1"
    by (rule wrap64_eqI) (simp_all add: tau64_numeral)
  have f: "fmod64 7 = 7 - tau64"
  proof -
    have "\<lfloor>7 / tau64\<rfloor> = 1" unfolding tau64_numeral by (simp add: floor_eq_iff)
    then show ?thesis by (simp add: fmod64_def js_trunc_def)
  qed
  have f0: "0 \<le> fmod64 7" unfolding f by (simp add: tau64_numeral)
  then have ns: "\<not> slip64 7" by (simp add: slip64_def)
  from normalizeAngle64_contract [of 7] f0 ns
  show ?thesis using w by auto
qed

text \<open>
  C10. The code is not idempotent at the double \<open>- 1e-20\<close>: \<open>normalizeAngle\<close>
  returns \<open>2 * Math.PI\<close> there, outside the interval its comment promises, and
  applied to that result it returns 0. (By \<open>normalizeAngle64_twice\<close> it is idempotent
  at every finite argument outside the interval where the sum rounds to
  \<open>2 * Math.PI\<close>, and by \<open>normalizeAngle64_fixed\<close> it is the identity on the
  half-open interval from 0 to \<open>2 * Math.PI\<close>.)
\<close>

theorem normalizeAngle64_not_idempotent:
  "normalizeAngle64 (Fin (- tiny64)) = Fin tau64
   \<and> normalizeAngle64 (normalizeAngle64 (Fin (- tiny64))) = Fin 0
   \<and> tau64 \<noteq> 0"
  by (simp add: normalizeAngle64_tiny normalizeAngle64_tau64)

section \<open>planetaryRingSpeed\<close>



text \<open>
  C8. With a zero \<open>ringTeeth\<close> (the positive or the negative zero),
  \<open>planetaryRingSpeed\<close> returns an infinity or NaN, whatever the other three arguments
  are, finite or not. No function of the module has a failure among its results: each is
  a total function from numbers to numbers, as the operators \<open>+\<close>, \<open>-\<close>, \<open>*\<close>, \<open>/\<close>,
  \<open>%\<close> and \<open><\<close> of the source are on numbers.
\<close>

theorem planetaryRingSpeed_zero_ringTeeth:
  "planetaryRingSpeed sunOmega carrierOmega sunTeeth (Fin 0) \<in> {PosInf, NegInf, NaN}
   \<and> planetaryRingSpeed sunOmega carrierOmega sunTeeth NegZero \<in> {PosInf, NegInf, NaN}"
  using js_div_zero [of "Fin 0"] js_div_zero [of NegZero]
  by (auto simp: planetaryRingSpeed_def)

text \<open>The same holds of the function in binary64 arithmetic.\<close>

lemma js_div64_zero:
  "is_zero b \<Longrightarrow> js_div64 a b = PosInf \<or> js_div64 a b = NegInf \<or> js_div64 a b = NaN"
  by (cases b) (auto simp: js_div64_def mk_inf_def)

lemma planetaryRingSpeed64_zero_ringTeeth:
  "planetaryRingSpeed64 sunOmega carrierOmega sunTeeth (Fin 0) \<in> {PosInf, NegInf, NaN}
   \<and> planetaryRingSpeed64 sunOmega carrierOmega sunTeeth NegZero \<in> {PosInf, NegInf, NaN}"
  using js_div64_zero [of "Fin 0"] js_div64_zero [of NegZero]
  by (auto simp: planetaryRingSpeed64_def)

text \<open>
  The double arithmetic of \<open>planetaryRingSpeed 0.1 0.1 3 7\<close>: the sum is 10, the product
  \<open>10 * 0.1\<close> rounds to 1, the product \<open>3 * 0.1\<close> rounds up to
  \<open>0.30000000000000004\<close>, the difference is exact and the quotient rounds down.
\<close>

lemma ringSpeed_step1: "js_add64 (Fin 3) (Fin 7) = Fin 10"
proof -
  have "round64 (3 + 7) = real_of_int 5629499534213120 * pow2 (- 49)"
    by (rule round64_at) (simp_all add: pow2_def round_even_def Let_def)
  then have "round64 (3 + 7) = 10" by (simp add: pow2_def)
  then show ?thesis by (rule js_add64_Fin) (simp_all add: pow2_def)
qed

lemma ringSpeed_step2: "js_mul64 (Fin 10) (Fin (3602879701896397 / 2 ^ 55)) = Fin 1"
proof -
  have "round64 (10 * (3602879701896397 / 2 ^ 55)) = real_of_int 4503599627370496 * pow2 (- 52)"
    by (rule round64_at) (simp_all add: pow2_def round_even_def Let_def)
  then have "round64 (10 * (3602879701896397 / 2 ^ 55)) = 1" by (simp add: pow2_def)
  then show ?thesis by (rule js_mul64_Fin) (simp_all add: pow2_def)
qed

lemma ringSpeed_step3: "js_mul64 (Fin 3) (Fin (3602879701896397 / 2 ^ 55)) = Fin (1351079888211149 / 2 ^ 52)"
proof -
  have "round64 (3 * (3602879701896397 / 2 ^ 55)) = real_of_int 5404319552844596 * pow2 (- 54)"
    by (rule round64_at) (simp_all add: pow2_def round_even_def Let_def)
  then have "round64 (3 * (3602879701896397 / 2 ^ 55)) = (1351079888211149 / 2 ^ 52)" by (simp add: pow2_def)
  then show ?thesis by (rule js_mul64_Fin) (simp_all add: pow2_def)
qed

lemma ringSpeed_step4: "js_sub64 (Fin 1) (Fin (1351079888211149 / 2 ^ 52)) = Fin (3152519739159347 / 2 ^ 52)"
proof -
  have "round64 (1 - (1351079888211149 / 2 ^ 52)) = real_of_int 6305039478318694 * pow2 (- 53)"
    by (rule round64_at) (simp_all add: pow2_def round_even_def Let_def)
  then have "round64 (1 - (1351079888211149 / 2 ^ 52)) = (3152519739159347 / 2 ^ 52)" by (simp add: pow2_def)
  then show ?thesis by (rule js_sub64_Fin) (simp_all add: pow2_def)
qed

lemma ringSpeed_step5: "js_div64 (Fin (3152519739159347 / 2 ^ 52)) (Fin 7) = Fin (7205759403792793 / 2 ^ 56)"
proof -
  have "round64 ((3152519739159347 / 2 ^ 52) / 7) = real_of_int 7205759403792793 * pow2 (- 56)"
    by (rule round64_at) (simp_all add: pow2_def round_even_def Let_def)
  then have "round64 ((3152519739159347 / 2 ^ 52) / 7) = (7205759403792793 / 2 ^ 56)" by (simp add: pow2_def)
  then show ?thesis by (rule js_div64_Fin) (simp_all add: pow2_def)
qed

text \<open>
  C9, as stated, fails on doubles: with sun and carrier at the speed \<open>0.1\<close>, 3 sun teeth
  and 7 ring teeth, \<open>planetaryRingSpeed\<close> returns \<open>0.09999999999999999\<close>, the double
  below \<open>0.1\<close>.
\<close>

theorem planetaryRingSpeed64_solid_body_counterexample:
  "is_double tenth64
   \<and> planetaryRingSpeed64 (Fin tenth64) (Fin tenth64) (Fin 3) (Fin 7)
       = Fin (7205759403792793 / 2 ^ 56)
   \<and> js_val (planetaryRingSpeed64 (Fin tenth64) (Fin tenth64) (Fin 3) (Fin 7)) \<noteq> Some tenth64"
proof -
  have v: "planetaryRingSpeed64 (Fin tenth64) (Fin tenth64) (Fin 3) (Fin 7)
             = Fin (7205759403792793 / 2 ^ 56)"
    by (simp only: planetaryRingSpeed64_def tenth64_def ringSpeed_step1 ringSpeed_step2
        ringSpeed_step3 ringSpeed_step4 ringSpeed_step5)
  have "is_double (real_of_int 3602879701896397 * pow2 (- 55))"
    by (rule is_double_mantissa) simp_all
  then have d: "is_double tenth64" by (simp add: pow2_def tenth64_def)
  have "(7205759403792793 / 2 ^ 56 :: real) \<noteq> tenth64" by (simp add: tenth64_def)
  then show ?thesis using d by (simp add: v)
qed

text \<open>
  C9, amended: when the sun and the carrier turn at the same speed \<open>w\<close>,
  \<open>ringTeeth \<noteq> 0\<close>, and the sum \<open>sunTeeth + ringTeeth\<close>, the products
  \<open>(sunTeeth + ringTeeth) * w\<close> and \<open>sunTeeth * w\<close> and their difference
  \<open>ringTeeth * w\<close> are doubles, so that no operation rounds (integers below \<open>2 ^ 53\<close>
  are such), the ring turns at the speed \<open>w\<close> too.
\<close>

theorem planetaryRingSpeed64_solid_body:
  assumes "ringTeeth \<noteq> 0"
    and "is_double (sunTeeth + ringTeeth)"
    and "is_double ((sunTeeth + ringTeeth) * w)"
    and "is_double (sunTeeth * w)"
    and "is_double (ringTeeth * w)"
    and "is_double w"
  shows "js_val (planetaryRingSpeed64 (Fin w) (Fin w) (Fin sunTeeth) (Fin ringTeeth)) = Some w"
proof -
  have s: "js_val (js_add64 (Fin sunTeeth) (Fin ringTeeth)) = Some (sunTeeth + ringTeeth)"
    using assms(2) by (intro js_val_add64) simp_all
  have p: "js_val (js_mul64 (js_add64 (Fin sunTeeth) (Fin ringTeeth)) (Fin w))
             = Some ((sunTeeth + ringTeeth) * w)"
    using s assms(3) by (intro js_val_mul64) simp_all
  have q: "js_val (js_mul64 (Fin sunTeeth) (Fin w)) = Some (sunTeeth * w)"
    using assms(4) by (intro js_val_mul64) simp_all
  have e: "(sunTeeth + ringTeeth) * w - sunTeeth * w = ringTeeth * w"
    by (simp add: algebra_simps)
  have d: "js_val (js_sub64 (js_mul64 (js_add64 (Fin sunTeeth) (Fin ringTeeth)) (Fin w))
                            (js_mul64 (Fin sunTeeth) (Fin w)))
             = Some ((sunTeeth + ringTeeth) * w - sunTeeth * w)"
    using p q assms(5) by (intro js_val_sub64) (simp_all only: e)
  have "js_val (planetaryRingSpeed64 (Fin w) (Fin w) (Fin sunTeeth) (Fin ringTeeth))
             = Some (ringTeeth * w / ringTeeth)"
    unfolding planetaryRingSpeed64_def using d assms(1,6)
    by (intro js_val_div64) (simp_all add: e)
  then show ?thesis using assms(1) by simp
qed

text \<open>The instance at speed 3, 30 sun teeth and 70 ring teeth.\<close>

theorem planetaryRingSpeed64_solid_body_witness:
  "(70::real) \<noteq> 0 \<and> is_double (30 + 70) \<and> is_double ((30 + 70) * 3) \<and> is_double (30 * 3)
   \<and> is_double (70 * 3) \<and> is_double 3
   \<and> js_val (planetaryRingSpeed64 (Fin 3) (Fin 3) (Fin 30) (Fin 70)) = Some 3"
proof -
  have a: "is_double (30 + 70)" using is_double_int [of 100] by simp
  have b: "is_double ((30 + 70) * 3)" using is_double_int [of 300] by simp
  have c: "is_double (30 * 3)" using is_double_int [of 90] by simp
  have d: "is_double (70 * 3)" using is_double_int [of 210] by simp
  have e: "is_double 3" using is_double_int [of 3] by simp
  have "(70::real) \<noteq> 0" by simp
  from planetaryRingSpeed64_solid_body [OF this a b c d e] a b c d e show ?thesis by simp
qed

section \<open>The phase functions\<close>




























section \<open>The round trip from planet to ring and back\<close>















end
